theory Spec2Isabelle
  imports Complex_Main "HOL-Library.Sublist"
begin

section \<open>Python values shared by the three modules\<close>

text \<open>
  Exceptions are values. \<open>SettingsError\<close> is the exception class of \<^verbatim>\<open>settings.py\<close>; its
  message is abstracted to the place that raises it.
\<close>

datatype settings_reason =
  FileNotFound | YAMLLoadError | EmptyDocument | GroupNotDefined | EmptyGroup

datatype py_error =
  IndexError | TypeError | AttributeError | KeyError | ZeroDivisionError | OSError
| FileNotFoundError | SettingsError settings_reason

section \<open>The sliding window generator (\<^verbatim>\<open>window.py\<close>)\<close>

text \<open>
  Time points and signal values are numpy arrays of numbers; they are modelled as lists of
  reals, so \<open>+\<close> and \<open><\<close> are exact. A slice \<^verbatim>\<open>a[:k]\<close> with \<open>k \<ge> 0\<close> is \<open>take k a\<close>.

  The generator yields tuples \<^verbatim>\<open>(window_begin_time, window_end_time, window_begin_index,
  window_end_index, function_output)\<close>; the record below names the five components. Python's
  \<^verbatim>\<open>None\<close> as function output is \<open>None\<close>, any other object \<open>v\<close> is \<open>Some v\<close>.
\<close>

record 'r window =
  window_begin_time :: real
  window_end_time :: real
  window_begin_index :: nat
  window_end_index :: nat
  function_output :: "'r option"

text \<open>
  The user-supplied \<^verbatim>\<open>function\<close> receives its positional arguments (one or two arrays) and the
  keyword arguments, and either returns an object or raises (\<open>Inl\<close>).
\<close>

type_synonym ('k, 'e, 'r) aggregation = "real list list \<Rightarrow> 'k \<Rightarrow> 'e + 'r option"

text \<open>\<^verbatim>\<open>np.where((time >= window_begin_time) & (time < window_end_time))[0]\<close>\<close>

definition window_indices :: "real list \<Rightarrow> real \<Rightarrow> real \<Rightarrow> nat list" where
  "window_indices time b e = filter (\<lambda>i. time ! i \<ge> b \<and> time ! i < e) [0..<length time]"

text \<open>The \<^verbatim>\<open>try\<close> block: the call, with a bare \<^verbatim>\<open>except\<close> that stores \<^verbatim>\<open>None\<close>.\<close>

definition call_function ::
  "('k, 'e, 'r) aggregation \<Rightarrow> bool \<Rightarrow> real list \<Rightarrow> real list \<Rightarrow> nat \<Rightarrow> 'k \<Rightarrow> 'r option" where
  "call_function function pass_time_in_window time signal end_index kwargs =
     (case (if pass_time_in_window
            then function [take end_index time, take end_index signal] kwargs
            else function [take end_index signal] kwargs) of
        Inr out \<Rightarrow> out
      | Inl err \<Rightarrow> None)"

text \<open>
  One pass through the body of \<^verbatim>\<open>while not stop_moving_window\<close> up to the \<^verbatim>\<open>yield\<close>: the tuples
  yielded for the interval from \<open>b\<close> to \<open>e\<close> (none or one).
\<close>

definition test_window ::
  "real list \<Rightarrow> real list \<Rightarrow> ('k, 'e, 'r) aggregation \<Rightarrow> bool \<Rightarrow> 'k \<Rightarrow> real \<Rightarrow> real
     \<Rightarrow> 'r window list" where
  "test_window time signal function pass_time_in_window kwargs b e =
     (let idx = window_indices time b e in
      if length idx \<noteq> 0
      then [\<lparr>window_begin_time = b, window_end_time = e,
             window_begin_index = hd idx, window_end_index = last idx,
             function_output =
               call_function function pass_time_in_window time signal (last idx) kwargs\<rparr>]
      else [])"

text \<open>
  The fast-forward loop \<^verbatim>\<open>while window_end_time < time[0]\<close>; \<open>t0\<close> is \<^verbatim>\<open>time[0]\<close>. It need not
  terminate (a step that is not positive), so its result is optional.
\<close>

partial_function (option) fast_forward ::
  "real \<Rightarrow> real \<Rightarrow> real \<Rightarrow> real \<Rightarrow> (real \<times> real) option" where
  "fast_forward t0 time_step b e =
     (if e < t0 then fast_forward t0 time_step (b + time_step) (e + time_step)
      else Some (b, e))"

declare fast_forward.simps [code]

text \<open>
  The main loop, consumed to exhaustion: the list of all tuples yielded from the interval
  from \<open>b\<close> to \<open>e\<close> on. \<^verbatim>\<open>time[-1]\<close> is \<open>last time\<close>; the loop is only entered with a non-empty
  \<open>time\<close>. The flag \<^verbatim>\<open>stop_moving_window\<close> is the \<open>else\<close> branch.
\<close>

partial_function (option) window_loop ::
  "real list \<Rightarrow> real list \<Rightarrow> real \<Rightarrow> ('k, 'e, 'r) aggregation \<Rightarrow> bool \<Rightarrow> 'k \<Rightarrow> real \<Rightarrow> real
     \<Rightarrow> 'r window list option" where
  "window_loop time signal time_step function pass_time_in_window kwargs b e =
     (let out = test_window time signal function pass_time_in_window kwargs b e in
      if e < last time
      then Option.bind
             (window_loop time signal time_step function pass_time_in_window kwargs
                (b + time_step) (e + time_step))
             (\<lambda>rest. Some (out @ rest))
      else Some out)"

declare window_loop.simps [code]

text \<open>
  \<^verbatim>\<open>moving_window\<close>. \<open>None\<close>: the generator never finishes; \<open>Some (Inl err)\<close>: it raises
  (\<^verbatim>\<open>time[0]\<close> on an empty array); \<open>Some (Inr ws)\<close>: it yields \<open>ws\<close> and stops.
\<close>

definition moving_window ::
  "real list \<Rightarrow> real list \<Rightarrow> real \<Rightarrow> real \<Rightarrow> ('k, 'e, 'r) aggregation \<Rightarrow> real option \<Rightarrow> bool \<Rightarrow> 'k
     \<Rightarrow> (py_error + 'r window list) option" where
  "moving_window time signal window_length time_step function time0 pass_time_in_window kwargs =
     (case time of
        [] \<Rightarrow> Some (Inl IndexError)
      | t # _ \<Rightarrow>
          (let origin = (case time0 of None \<Rightarrow> t | Some x \<Rightarrow> x) in
           case fast_forward t time_step origin (origin + window_length) of
             None \<Rightarrow> None
           | Some (b, e) \<Rightarrow>
               map_option Inr
                 (window_loop time signal time_step function pass_time_in_window kwargs b e)))"

text \<open>
  Python's built-in \<^verbatim>\<open>sum\<close> as aggregation function: \<^verbatim>\<open>sum(values)\<close> is a number,
  \<^verbatim>\<open>sum(values, start)\<close> with an array \<open>start\<close> adds every value to each element of \<open>start\<close>.
\<close>

datatype py_number = Number real | Array "real list"

definition py_sum :: "(unit, py_error, py_number) aggregation" where
  "py_sum args kwargs =
     (case args of
        [xs] \<Rightarrow> Inr (Some (Number (sum_list xs)))
      | [xs, start] \<Rightarrow> Inr (Some (Array (map (\<lambda>v. v + sum_list xs) start)))
      | _ \<Rightarrow> Inl TypeError)"



section \<open>Loading settings (\<^verbatim>\<open>settings.py\<close>)\<close>



















section \<open>Extracting a channel from a FIT file (\<^verbatim>\<open>data_extraction.py\<close>)\<close>



text \<open>
  A decoded field value: a number, a \<^verbatim>\<open>datetime\<close> (as seconds on the time axis), or an object
  that \<^verbatim>\<open>float\<close> rejects. A field whose value is \<^verbatim>\<open>None\<close> carries \<open>None\<close>.

  A frame read from the file: whether it is a \<^verbatim>\<open>FitDataMessage\<close>, its name, and its fields
  in order.
\<close>

datatype fit_value = FitNumber real | FitDateTime real | FitOther










section \<open>Facts about the two loops of the window generator\<close>

lemma fast_forward_total:
  assumes "0 < time_step"
  shows "\<exists>k. fast_forward t0 time_step b e = Some (b + real k * time_step, e + real k * time_step)
           \<and> t0 \<le> e + real k * time_step
           \<and> (\<forall>j<k. e + real j * time_step < t0)"
proof (induction "nat \<lceil>(t0 - e) / time_step\<rceil>" arbitrary: b e rule: less_induct)
  case less
  show ?case
  proof (cases "e < t0")
    case False
    then have "fast_forward t0 time_step b e = Some (b, e)"
      by (subst fast_forward.simps) simp
    with False show ?thesis
      by (intro exI[of _ 0]) simp
  next
    case True
    have eq: "(t0 - (e + time_step)) / time_step = (t0 - e) / time_step - 1"
      using assms by (simp add: field_simps)
    have pos: "0 < (t0 - e) / time_step"
      using True assms by simp
    have "nat \<lceil>(t0 - (e + time_step)) / time_step\<rceil> < nat \<lceil>(t0 - e) / time_step\<rceil>"
      unfolding eq using pos by linarith
    from less[OF this, of "b + time_step"] obtain k where
      k: "fast_forward t0 time_step (b + time_step) (e + time_step)
            = Some (b + time_step + real k * time_step, e + time_step + real k * time_step)"
         "t0 \<le> e + time_step + real k * time_step"
         "\<forall>j<k. e + time_step + real j * time_step < t0"
      by blast
    have "fast_forward t0 time_step b e
            = Some (b + real (Suc k) * time_step, e + real (Suc k) * time_step)"
      by (subst fast_forward.simps) (simp add: True k(1) algebra_simps)
    moreover have "t0 \<le> e + real (Suc k) * time_step"
      using k(2) by (simp add: algebra_simps)
    moreover have "\<forall>j<Suc k. e + real j * time_step < t0"
    proof (intro allI impI)
      fix j assume "j < Suc k"
      show "e + real j * time_step < t0"
      proof (cases j)
        case 0 with True show ?thesis by simp
      next
        case (Suc j')
        with \<open>j < Suc k\<close> k(3) have "e + time_step + real j' * time_step < t0" by simp
        with Suc show ?thesis by (simp add: algebra_simps)
      qed
    qed
    ultimately show ?thesis by blast
  qed
qed

lemma concat_map_upt_Suc:
  "concat (map f [0..<Suc n]) = f 0 @ concat (map (\<lambda>k. f (Suc k)) [0..<n])"
proof -
  have "[0..<Suc n] = 0 # map Suc [0..<n]"
    by (simp add: upt_conv_Cons map_Suc_upt del: upt_Suc)
  then show ?thesis by (simp add: comp_def del: upt_Suc)
qed

lemma window_loop_total:
  assumes "0 < time_step"
  shows "\<exists>n. window_loop time signal time_step function pass_time kwargs b e
             = Some (concat (map (\<lambda>k. test_window time signal function pass_time kwargs
                                       (b + real k * time_step) (e + real k * time_step))
                              [0..<Suc n]))
           \<and> last time \<le> e + real n * time_step
           \<and> (\<forall>k<n. e + real k * time_step < last time)"
proof (induction "nat \<lceil>(last time - e) / time_step\<rceil>" arbitrary: b e rule: less_induct)
  case less
  let ?tw = "test_window time signal function pass_time kwargs"
  show ?case
  proof (cases "e < last time")
    case False
    then have "window_loop time signal time_step function pass_time kwargs b e = Some (?tw b e)"
      by (subst window_loop.simps) simp
    with False show ?thesis
      by (intro exI[of _ 0]) simp
  next
    case True
    have eq: "(last time - (e + time_step)) / time_step = (last time - e) / time_step - 1"
      using assms by (simp add: field_simps)
    have pos: "0 < (last time - e) / time_step"
      using True assms by simp
    have "nat \<lceil>(last time - (e + time_step)) / time_step\<rceil> < nat \<lceil>(last time - e) / time_step\<rceil>"
      unfolding eq using pos by linarith
    from less[OF this, of "b + time_step"] obtain n where
      n: "window_loop time signal time_step function pass_time kwargs (b + time_step) (e + time_step)
            = Some (concat (map (\<lambda>k. ?tw (b + time_step + real k * time_step)
                                         (e + time_step + real k * time_step)) [0..<Suc n]))"
         "last time \<le> e + time_step + real n * time_step"
         "\<forall>k<n. e + time_step + real k * time_step < last time"
      by blast
    have shift: "(\<lambda>k. ?tw (b + time_step + real k * time_step) (e + time_step + real k * time_step))
                 = (\<lambda>k. ?tw (b + real (Suc k) * time_step) (e + real (Suc k) * time_step))"
      by (simp add: algebra_simps)
    have "window_loop time signal time_step function pass_time kwargs b e
            = Some (?tw b e @ concat (map (\<lambda>k. ?tw (b + real (Suc k) * time_step)
                                                  (e + real (Suc k) * time_step)) [0..<Suc n]))"
      by (subst window_loop.simps) (simp add: True n(1) shift del: upt_Suc)
    also have "?tw b e @ concat (map (\<lambda>k. ?tw (b + real (Suc k) * time_step)
                                                  (e + real (Suc k) * time_step)) [0..<Suc n])
             = concat (map (\<lambda>k. ?tw (b + real k * time_step) (e + real k * time_step))
                        [0..<Suc (Suc n)])"
      by (subst concat_map_upt_Suc[where n = "Suc n"]) simp
    finally have 1: "window_loop time signal time_step function pass_time kwargs b e
            = Some (concat (map (\<lambda>k. ?tw (b + real k * time_step) (e + real k * time_step))
                        [0..<Suc (Suc n)]))" .
    have 2: "last time \<le> e + real (Suc n) * time_step"
      using n(2) by (simp add: algebra_simps)
    have 3: "\<forall>k<Suc n. e + real k * time_step < last time"
    proof (intro allI impI)
      fix k assume "k < Suc n"
      show "e + real k * time_step < last time"
      proof (cases k)
        case 0 with True show ?thesis by simp
      next
        case (Suc k')
        with \<open>k < Suc n\<close> n(3) have "e + time_step + real k' * time_step < last time" by simp
        with Suc show ?thesis by (simp add: algebra_simps)
      qed
    qed
    from 1 2 3 show ?thesis by blast
  qed
qed



lemma window_indices_member:
  "i \<in> set (window_indices time b e) \<longleftrightarrow> i < length time \<and> b \<le> time ! i \<and> time ! i < e"
  by (auto simp: window_indices_def)

lemma window_indices_sorted: "sorted (window_indices time b e)"
  unfolding window_indices_def by (rule sorted_wrt_filter) simp

lemma window_indices_hd_le:
  assumes "i \<in> set (window_indices time b e)"
  shows "hd (window_indices time b e) \<le> i"
proof -
  from assms obtain x xs where eq: "window_indices time b e = x # xs"
    by (cases "window_indices time b e") auto
  with window_indices_sorted[of time b e] assms show ?thesis by auto
qed


lemma window_indices_hd_last:
  assumes "window_indices time b e \<noteq> []"
  shows "hd (window_indices time b e) \<in> set (window_indices time b e)"
    and "last (window_indices time b e) \<in> set (window_indices time b e)"
  using assms by simp_all

lemma window_indices_range:
  assumes "sorted time" and "window_indices time b e \<noteq> []"
    and "hd (window_indices time b e) \<le> i" and "i \<le> last (window_indices time b e)"
  shows "i < length time \<and> b \<le> time ! i \<and> time ! i < e"
proof -
  let ?idx = "window_indices time b e"
  from window_indices_hd_last[OF assms(2)]
  have h: "hd ?idx < length time" "b \<le> time ! hd ?idx"
    and l: "last ?idx < length time" "time ! last ?idx < e"
    by (simp_all add: window_indices_member)
  from assms(4) l(1) have i: "i < length time" by simp
  have "time ! hd ?idx \<le> time ! i"
    using assms(1,3) i by (simp add: sorted_nth_mono)
  moreover have "time ! i \<le> time ! last ?idx"
    using assms(1,4) l(1) by (simp add: sorted_nth_mono)
  ultimately show ?thesis using h(2) l(2) i by simp
qed


lemma test_window_empty:
  "window_indices time b e = [] \<Longrightarrow> test_window time signal function pass_time kwargs b e = []"
  by (simp add: test_window_def)

lemma test_window_member:
  assumes "w \<in> set (test_window time signal function pass_time kwargs b e)"
  shows "window_indices time b e \<noteq> []"
    and "window_begin_time w = b" and "window_end_time w = e"
    and "window_begin_index w = hd (window_indices time b e)"
    and "window_end_index w = last (window_indices time b e)"
    and "function_output w
           = call_function function pass_time time signal (window_end_index w) kwargs"
  using assms by (auto simp: test_window_def Let_def split: if_splits)




lemma moving_window_unfold:
  assumes "time \<noteq> []"
  shows "moving_window time signal window_length time_step function time0 pass_time kwargs
           = (case fast_forward (hd time) time_step
                     (case time0 of None \<Rightarrow> hd time | Some x \<Rightarrow> x)
                     ((case time0 of None \<Rightarrow> hd time | Some x \<Rightarrow> x) + window_length) of
                None \<Rightarrow> None
              | Some (b, e) \<Rightarrow>
                  map_option Inr
                    (window_loop time signal time_step function pass_time kwargs b e))"
proof -
  from assms obtain t ts where time: "time = t # ts" by (cases time) auto
  show ?thesis
    unfolding time by (cases time0) (simp_all add: moving_window_def)
qed

lemma moving_window_total:
  assumes "time \<noteq> []" and "0 < time_step"
  shows "\<exists>b k n.
           b = (case time0 of None \<Rightarrow> hd time | Some x \<Rightarrow> x) + real k * time_step
         \<and> fast_forward (hd time) time_step (case time0 of None \<Rightarrow> hd time | Some x \<Rightarrow> x)
               ((case time0 of None \<Rightarrow> hd time | Some x \<Rightarrow> x) + window_length)
             = Some (b, b + window_length)
         \<and> moving_window time signal window_length time_step function time0 pass_time kwargs
             = Some (Inr (concat (map (\<lambda>i. test_window time signal function pass_time kwargs
                  (b + real i * time_step) (b + window_length + real i * time_step))
                [0..<Suc n])))
         \<and> hd time \<le> b + window_length
         \<and> (\<forall>j<k. (case time0 of None \<Rightarrow> hd time | Some x \<Rightarrow> x) + window_length
                     + real j * time_step < hd time)
         \<and> last time \<le> b + window_length + real n * time_step
         \<and> (\<forall>i<n. b + window_length + real i * time_step < last time)"
proof -
  let ?o = "case time0 of None \<Rightarrow> hd time | Some x \<Rightarrow> x"
  from fast_forward_total[OF assms(2), of "hd time" ?o "?o + window_length"] obtain k where
    k: "fast_forward (hd time) time_step ?o (?o + window_length)
          = Some (?o + real k * time_step, ?o + window_length + real k * time_step)"
       "hd time \<le> ?o + window_length + real k * time_step"
       "\<forall>j<k. ?o + window_length + real j * time_step < hd time"
    by blast
  define b where "b = ?o + real k * time_step"
  have e: "?o + window_length + real k * time_step = b + window_length"
    by (simp add: b_def)
  from window_loop_total[OF assms(2), of time signal "function" pass_time kwargs
      b "b + window_length"] obtain n where
    n: "window_loop time signal time_step function pass_time kwargs b (b + window_length)
        = Some (concat (map (\<lambda>i. test_window time signal function pass_time kwargs
                  (b + real i * time_step) (b + window_length + real i * time_step))
                [0..<Suc n]))"
       "last time \<le> b + window_length + real n * time_step"
       "\<forall>i<n. b + window_length + real i * time_step < last time"
    by blast
  have ff: "fast_forward (hd time) time_step ?o (?o + window_length) = Some (b, b + window_length)"
    using k(1) by (simp add: b_def e)
  have "moving_window time signal window_length time_step function time0 pass_time kwargs
          = Some (Inr (concat (map (\<lambda>i. test_window time signal function pass_time kwargs
                  (b + real i * time_step) (b + window_length + real i * time_step))
                [0..<Suc n])))"
    unfolding moving_window_unfold[OF assms(1)] ff using n(1) by (simp del: upt_Suc)
  moreover have "hd time \<le> b + window_length" using k(2) by (simp add: e)
  moreover have "b = ?o + real k * time_step" by (rule b_def)
  ultimately show ?thesis using ff k(3) n(2,3) by blast
qed

lemma moving_window_member:
  assumes "time \<noteq> []" and "0 < time_step"
  shows "\<exists>ws. moving_window time signal window_length time_step function time0 pass_time kwargs
               = Some (Inr ws)
           \<and> (\<forall>w\<in>set ws. \<exists>b. w \<in> set (test_window time signal function pass_time kwargs b
                                              (b + window_length)))"
proof -
  let ?tw = "test_window time signal function pass_time kwargs"
  from moving_window_total[OF assms, of time0 window_length signal "function" pass_time kwargs]
  obtain b n where run:
    "moving_window time signal window_length time_step function time0 pass_time kwargs
       = Some (Inr (concat (map (\<lambda>i. ?tw (b + real i * time_step)
                                        (b + window_length + real i * time_step)) [0..<Suc n])))"
    by blast
  have "\<exists>b'. w \<in> set (?tw b' (b' + window_length))"
    if "w \<in> set (concat (map (\<lambda>i. ?tw (b + real i * time_step)
                                        (b + window_length + real i * time_step)) [0..<Suc n]))"
    for w
  proof -
    from that obtain i where
      "w \<in> set (?tw (b + real i * time_step) (b + window_length + real i * time_step))"
      by auto
    moreover have "b + window_length + real i * time_step = (b + real i * time_step) + window_length"
      by simp
    ultimately have "w \<in> set (?tw (b + real i * time_step) ((b + real i * time_step) + window_length))"
      by simp
    then show ?thesis by (rule exI)
  qed
  with run show ?thesis by blast
qed




section \<open>Facts about loading settings\<close>





section \<open>Facts about the extraction loop\<close>






section \<open>What the aggregation function receives\<close>

text \<open>
  Claim C1. For every tuple that \<^verbatim>\<open>moving_window\<close> yields, the function output is the outcome
  of calling the function on the prefix of the series that starts at position 0 and is
  delimited by \<open>window_end_index\<close> (the slice \<^verbatim>\<open>[:window_end_index]\<close>), whatever
  \<open>window_begin_index\<close> is; with \<open>pass_time_in_window\<close> the same prefix of the time points is
  passed before that of the signal. The slice bound is read as Python reads it, as in
  scenario A of the specification.
\<close>

theorem content_is_prefix_to_end_index:
  assumes "time \<noteq> []" and "0 < time_step"
  shows "\<exists>ws. moving_window time signal window_length time_step function time0 pass_time_in_window kwargs
               = Some (Inr ws)
           \<and> (\<forall>w\<in>set ws.
                 function_output w =
                   (case (if pass_time_in_window
                          then function [take (window_end_index w) time,
                                         take (window_end_index w) signal] kwargs
                          else function [take (window_end_index w) signal] kwargs) of
                      Inr out \<Rightarrow> out
                    | Inl err \<Rightarrow> None))"
proof -
  from moving_window_member[OF assms, of signal window_length "function" time0
      pass_time_in_window kwargs]
  obtain ws where ws:
    "moving_window time signal window_length time_step function time0 pass_time_in_window kwargs
       = Some (Inr ws)"
    "\<forall>w\<in>set ws. \<exists>b e. w \<in> set (test_window time signal function pass_time_in_window kwargs b e)"
    by blast
  have "function_output w = call_function function pass_time_in_window time signal
          (window_end_index w) kwargs" if "w \<in> set ws" for w
  proof -
    from ws(2) that obtain b e where
      "w \<in> set (test_window time signal function pass_time_in_window kwargs b e)"
      by blast
    then show ?thesis by (rule test_window_member(6))
  qed
  then show ?thesis using ws(1) unfolding call_function_def by blast
qed

theorem content_is_prefix_to_end_index_witness:
  "moving_window [0, 1, 5, 6] [10, 20, 30, 40] 2 5 py_sum None False ()
     = Some (Inr
        [\<lparr>window_begin_time = 0, window_end_time = 2, window_begin_index = 0,
           window_end_index = 1, function_output = Some (Number 10)\<rparr>,
         \<lparr>window_begin_time = 5, window_end_time = 7, window_begin_index = 2,
           window_end_index = 3, function_output = Some (Number 60)\<rparr>])
   \<and> py_sum [take 3 [10, 20, 30, 40]] () = Inr (Some (Number 60))"
proof -
  have "[0, 1, 5, (6::real)] \<noteq> []" and "(0::real) < 5" by simp_all
  have run: "moving_window [0, 1, 5, 6] [10, 20, 30, 40] 2 5 py_sum None False ()
     = Some (Inr
        [\<lparr>window_begin_time = 0, window_end_time = 2, window_begin_index = 0,
           window_end_index = 1, function_output = Some (Number 10)\<rparr>,
         \<lparr>window_begin_time = 5, window_end_time = 7, window_begin_index = 2,
           window_end_index = 3, function_output = Some (Number 60)\<rparr>])"
    by code_simp
  have call: "py_sum [take 3 [10, 20, 30, 40]] () = Inr (Some (Number 60))"
    by code_simp
  have "[0, 1, 5, (6::real)] \<noteq> []" and "(0::real) < 5" by simp_all
  from content_is_prefix_to_end_index[OF this, of "[10, 20, 30, 40]" 2 py_sum None False "()"]
    run call
  show ?thesis by simp
qed

section \<open>The slices stop before \<open>window_end_index\<close>\<close>

text \<open>
  Claim C9. For every tuple that \<^verbatim>\<open>moving_window\<close> yields, the function was called on
  \<^verbatim>\<open>time[:window_end_index]\<close> and \<^verbatim>\<open>signal[:window_end_index]\<close>: the time slice has exactly
  \<open>window_end_index\<close> elements, the signal slice at most as many, so neither holds the
  element at position \<open>window_end_index\<close>, although that time point lies in the window.
  When \<open>window_end_index = 0\<close> (then \<open>window_begin_index = 0\<close> as well) the function is
  called on empty slices, and the tuple is yielded all the same.
\<close>

theorem slices_stop_before_end_index:
  assumes "time \<noteq> []" and "0 < time_step"
  shows "\<exists>ws. moving_window time signal window_length time_step function time0 pass_time_in_window kwargs
               = Some (Inr ws)
           \<and> (\<forall>w\<in>set ws.
                 window_end_index w < length time
               \<and> window_begin_time w \<le> time ! window_end_index w
               \<and> time ! window_end_index w < window_end_time w
               \<and> length (take (window_end_index w) time) = window_end_index w
               \<and> length (take (window_end_index w) signal) \<le> window_end_index w
               \<and> function_output w =
                   (case (if pass_time_in_window
                          then function [take (window_end_index w) time,
                                         take (window_end_index w) signal] kwargs
                          else function [take (window_end_index w) signal] kwargs) of
                      Inr out \<Rightarrow> out
                    | Inl err \<Rightarrow> None)
               \<and> (window_end_index w = 0 \<longrightarrow>
                     window_begin_index w = 0
                   \<and> function_output w =
                       (case (if pass_time_in_window then function [[], []] kwargs
                              else function [[]] kwargs) of
                          Inr out \<Rightarrow> out
                        | Inl err \<Rightarrow> None)))"
proof -
  from moving_window_member[OF assms, of signal window_length "function" time0
      pass_time_in_window kwargs]
  obtain ws where ws:
    "moving_window time signal window_length time_step function time0 pass_time_in_window kwargs
       = Some (Inr ws)"
    "\<forall>w\<in>set ws. \<exists>b. w \<in> set (test_window time signal function pass_time_in_window kwargs b
                                   (b + window_length))"
    by blast
  have body: "window_end_index w < length time
               \<and> window_begin_time w \<le> time ! window_end_index w
               \<and> time ! window_end_index w < window_end_time w
               \<and> length (take (window_end_index w) time) = window_end_index w
               \<and> length (take (window_end_index w) signal) \<le> window_end_index w
               \<and> function_output w =
                   (case (if pass_time_in_window
                          then function [take (window_end_index w) time,
                                         take (window_end_index w) signal] kwargs
                          else function [take (window_end_index w) signal] kwargs) of
                      Inr out \<Rightarrow> out
                    | Inl err \<Rightarrow> None)
               \<and> (window_end_index w = 0 \<longrightarrow>
                     window_begin_index w = 0
                   \<and> function_output w =
                       (case (if pass_time_in_window then function [[], []] kwargs
                              else function [[]] kwargs) of
                          Inr out \<Rightarrow> out
                        | Inl err \<Rightarrow> None))"
    if "w \<in> set ws" for w
  proof -
    from ws(2) that obtain b where
      m: "w \<in> set (test_window time signal function pass_time_in_window kwargs b (b + window_length))"
      by blast
    let ?e = "b + window_length"
    let ?idx = "window_indices time b ?e"
    note f = test_window_member[OF m]
    from window_indices_hd_last[OF f(1)] have hl: "hd ?idx \<in> set ?idx" "last ?idx \<in> set ?idx" .
    have le: "hd ?idx \<le> last ?idx" using hl(2) by (rule window_indices_hd_le)
    have l: "last ?idx < length time" "b \<le> time ! last ?idx" "time ! last ?idx < ?e"
      using hl(2) by (simp_all add: window_indices_member)
    have out: "function_output w =
                   (case (if pass_time_in_window
                          then function [take (window_end_index w) time,
                                         take (window_end_index w) signal] kwargs
                          else function [take (window_end_index w) signal] kwargs) of
                      Inr out \<Rightarrow> out
                    | Inl err \<Rightarrow> None)"
      using f(6) by (simp add: call_function_def)
    have zero: "window_begin_index w = 0
                   \<and> function_output w =
                       (case (if pass_time_in_window then function [[], []] kwargs
                              else function [[]] kwargs) of
                          Inr out \<Rightarrow> out
                        | Inl err \<Rightarrow> None)" if "window_end_index w = 0"
      using that out le by (simp add: f(4,5))
    show ?thesis using l out zero by (simp add: f(2,3,5))
  qed
  show ?thesis
    by (rule exI[of _ ws], rule conjI[OF ws(1)], rule ballI, rule body)
qed

theorem slices_stop_before_end_index_witness:
  "moving_window [0, 5] [10, 20] 1 5 py_sum None False ()
     = Some (Inr
        [\<lparr>window_begin_time = 0, window_end_time = 1, window_begin_index = 0,
           window_end_index = 0, function_output = Some (Number 0)\<rparr>,
         \<lparr>window_begin_time = 5, window_end_time = 6, window_begin_index = 1,
           window_end_index = 1, function_output = Some (Number 10)\<rparr>])
   \<and> py_sum [[]] () = Inr (Some (Number 0))"
proof -
  have run: "moving_window [0, 5] [10, 20] 1 5 py_sum None False ()
     = Some (Inr
        [\<lparr>window_begin_time = 0, window_end_time = 1, window_begin_index = 0,
           window_end_index = 0, function_output = Some (Number 0)\<rparr>,
         \<lparr>window_begin_time = 5, window_end_time = 6, window_begin_index = 1,
           window_end_index = 1, function_output = Some (Number 10)\<rparr>])"
    by code_simp
  have call: "py_sum [[]] () = Inr (Some (Number 0))" by code_simp
  have "[0, (5::real)] \<noteq> []" and "(0::real) < 5" by simp_all
  from slices_stop_before_end_index[OF this, of "[10, 20]" 1 py_sum None False "()"] run call
  show ?thesis by simp
qed

section \<open>Invariants of the yielded tuples\<close>

text \<open>
  Claim C3. For every ascending, non-empty series and every positive step (and any window
  length), \<^verbatim>\<open>moving_window\<close> finishes, and every tuple it yields belongs to an interval whose
  index set is not empty, has \<open>window_begin_index \<le> window_end_index\<close>, and every position
  from \<open>window_begin_index\<close> to \<open>window_end_index\<close> holds a time point \<open>t\<close> with
  \<open>window_begin_time \<le> t < window_end_time\<close>. An interval whose index set is empty yields
  no tuple.
\<close>

theorem emitted_window_invariant:
  assumes "sorted time" and "time \<noteq> []" and "0 < time_step"
  shows "\<exists>ws. moving_window time signal window_length time_step function time0 pass_time_in_window kwargs
               = Some (Inr ws)
           \<and> (\<forall>w\<in>set ws.
                 window_indices time (window_begin_time w) (window_end_time w) \<noteq> []
               \<and> window_begin_index w \<le> window_end_index w
               \<and> window_end_index w < length time
               \<and> (\<forall>i. window_begin_index w \<le> i \<and> i \<le> window_end_index w \<longrightarrow>
                      window_begin_time w \<le> time ! i \<and> time ! i < window_end_time w))
           \<and> (\<forall>b e. window_indices time b e = [] \<longrightarrow>
                  test_window time signal function pass_time_in_window kwargs b e = [])"
proof -
  from moving_window_member[OF assms(2,3), of signal window_length "function" time0
      pass_time_in_window kwargs]
  obtain ws where ws:
    "moving_window time signal window_length time_step function time0 pass_time_in_window kwargs
       = Some (Inr ws)"
    "\<forall>w\<in>set ws. \<exists>b. w \<in> set (test_window time signal function pass_time_in_window kwargs b
                                   (b + window_length))"
    by blast
  have inv: "window_indices time (window_begin_time w) (window_end_time w) \<noteq> []
       \<and> window_begin_index w \<le> window_end_index w
       \<and> window_end_index w < length time
       \<and> (\<forall>i. window_begin_index w \<le> i \<and> i \<le> window_end_index w \<longrightarrow>
              window_begin_time w \<le> time ! i \<and> time ! i < window_end_time w)"
    if "w \<in> set ws" for w
  proof -
    from ws(2) that obtain b where
      m: "w \<in> set (test_window time signal function pass_time_in_window kwargs b (b + window_length))"
      by blast
    let ?e = "b + window_length"
    let ?idx = "window_indices time b ?e"
    note f = test_window_member[OF m]
    have ne: "?idx \<noteq> []" by (rule f(1))
    from window_indices_hd_last[OF ne] have hl: "hd ?idx \<in> set ?idx" "last ?idx \<in> set ?idx" .
    have 1: "hd ?idx \<le> last ?idx" using hl(2) by (rule window_indices_hd_le)
    have 2: "last ?idx < length time" using hl(2) by (simp add: window_indices_member)
    have 3: "\<forall>i. hd ?idx \<le> i \<and> i \<le> last ?idx \<longrightarrow> b \<le> time ! i \<and> time ! i < ?e"
      using window_indices_range[OF assms(1) ne] by blast
    show ?thesis using ne 1 2 3 by (simp add: f(2,3,4,5))
  qed
  show ?thesis
  proof (intro exI conjI)
    show "moving_window time signal window_length time_step function time0 pass_time_in_window kwargs
            = Some (Inr ws)"
      by (rule ws(1))
    show "\<forall>w\<in>set ws.
            window_indices time (window_begin_time w) (window_end_time w) \<noteq> []
          \<and> window_begin_index w \<le> window_end_index w
          \<and> window_end_index w < length time
          \<and> (\<forall>i. window_begin_index w \<le> i \<and> i \<le> window_end_index w \<longrightarrow>
                 window_begin_time w \<le> time ! i \<and> time ! i < window_end_time w)"
      by (intro ballI) (rule inv)
    show "\<forall>b e. window_indices time b e = [] \<longrightarrow>
            test_window time signal function pass_time_in_window kwargs b e = []"
      by (simp add: test_window_empty)
  qed
qed

theorem emitted_window_invariant_witness:
  "moving_window [0, 1, 5, 6] [10, 20, 30, 40] 2 5 py_sum None True ()
     = Some (Inr
        [\<lparr>window_begin_time = 0, window_end_time = 2, window_begin_index = 0,
           window_end_index = 1, function_output = Some (Array [10])\<rparr>,
         \<lparr>window_begin_time = 5, window_end_time = 7, window_begin_index = 2,
           window_end_index = 3, function_output = Some (Array [16, 26, 36])\<rparr>])
   \<and> window_indices [0, 1, 5, 6] 5 7 = [2, 3]
   \<and> (5::real) \<le> [0, 1, 5, 6] ! 2 \<and> [0, 1, 5, 6] ! 3 < (7::real)
   \<and> test_window [0, 1, 5, 6] [10, 20, 30, 40] py_sum True () 2 5 = []"
proof -
  have run: "moving_window [0, 1, 5, 6] [10, 20, 30, 40] 2 5 py_sum None True ()
     = Some (Inr
        [\<lparr>window_begin_time = 0, window_end_time = 2, window_begin_index = 0,
           window_end_index = 1, function_output = Some (Array [10])\<rparr>,
         \<lparr>window_begin_time = 5, window_end_time = 7, window_begin_index = 2,
           window_end_index = 3, function_output = Some (Array [16, 26, 36])\<rparr>])"
    by code_simp
  have idx: "window_indices [0, 1, 5, 6] 5 7 = [2, 3]" by code_simp
  have gap: "test_window [0, 1, 5, 6] [10, 20, 30, 40] py_sum True () 2 5 = []" by code_simp
  have "sorted [0, 1, 5, (6::real)]" and "[0, 1, 5, (6::real)] \<noteq> []" and "(0::real) < 5"
    by simp_all
  from emitted_window_invariant[OF this, of "[10, 20, 30, 40]" 2 py_sum None True "()"]
    run idx gap
  show ?thesis by simp
qed

section \<open>Order of the yielded tuples\<close>



section \<open>Termination and the number of iterations\<close>




section \<open>Origin and fast-forward\<close>

text \<open>
  Claim C5. With \<open>time0\<close> unset, \<^verbatim>\<open>moving_window\<close> behaves as with \<open>time0 = time[0]\<close>. For a
  positive step the fast-forward loop advances both bounds \<open>k\<close> times by the step, every
  interval it passes has its end strictly below \<open>time[0]\<close>, and the interval it stops at, the
  first one tested, has its end at or above \<open>time[0]\<close>. (With origin \<open>-100\<close>, length 1 and
  step 1 on a series that starts at 0, the first interval tested is the one from \<open>-1\<close> to
  \<open>0\<close>.)
\<close>

theorem origin_default_and_alignment:
  assumes "time \<noteq> []" and "0 < time_step"
  shows "moving_window time signal window_length time_step function None pass_time_in_window kwargs
           = moving_window time signal window_length time_step function (Some (hd time))
               pass_time_in_window kwargs
       \<and> (\<exists>b k rest.
             b = (case time0 of None \<Rightarrow> hd time | Some x \<Rightarrow> x) + real k * time_step
           \<and> fast_forward (hd time) time_step (case time0 of None \<Rightarrow> hd time | Some x \<Rightarrow> x)
                 ((case time0 of None \<Rightarrow> hd time | Some x \<Rightarrow> x) + window_length)
               = Some (b, b + window_length)
           \<and> (\<forall>j<k. (case time0 of None \<Rightarrow> hd time | Some x \<Rightarrow> x) + window_length
                       + real j * time_step < hd time)
           \<and> hd time \<le> b + window_length
           \<and> moving_window time signal window_length time_step function time0
                 pass_time_in_window kwargs
               = Some (Inr (test_window time signal function pass_time_in_window kwargs
                              b (b + window_length) @ rest)))"
proof -
  let ?o = "case time0 of None \<Rightarrow> hd time | Some x \<Rightarrow> x"
  let ?tw = "test_window time signal function pass_time_in_window kwargs"
  have unset: "moving_window time signal window_length time_step function None
                 pass_time_in_window kwargs
           = moving_window time signal window_length time_step function (Some (hd time))
               pass_time_in_window kwargs"
    by (simp add: moving_window_unfold[OF assms(1)])
  from moving_window_total[OF assms, of time0 window_length signal "function"
      pass_time_in_window kwargs]
  obtain b k n where
    b: "b = ?o + real k * time_step"
    and ff: "fast_forward (hd time) time_step ?o (?o + window_length) = Some (b, b + window_length)"
    and run: "moving_window time signal window_length time_step function time0 pass_time_in_window
         kwargs = Some (Inr (concat (map (\<lambda>i. ?tw (b + real i * time_step)
                     (b + window_length + real i * time_step)) [0..<Suc n])))"
    and skipped: "\<forall>j<k. ?o + window_length + real j * time_step < hd time"
    and reach: "hd time \<le> b + window_length"
    by blast
  define rest where "rest = concat (map (\<lambda>i. ?tw (b + real (Suc i) * time_step)
                     (b + window_length + real (Suc i) * time_step)) [0..<n])"
  have "concat (map (\<lambda>i. ?tw (b + real i * time_step)
                     (b + window_length + real i * time_step)) [0..<Suc n])
          = ?tw b (b + window_length) @ rest"
    unfolding rest_def by (subst concat_map_upt_Suc) simp
  with run have first: "moving_window time signal window_length time_step function time0
      pass_time_in_window kwargs = Some (Inr (?tw b (b + window_length) @ rest))"
    by simp
  from b ff skipped reach first have "\<exists>b k rest.
             b = ?o + real k * time_step
           \<and> fast_forward (hd time) time_step ?o (?o + window_length) = Some (b, b + window_length)
           \<and> (\<forall>j<k. ?o + window_length + real j * time_step < hd time)
           \<and> hd time \<le> b + window_length
           \<and> moving_window time signal window_length time_step function time0
                 pass_time_in_window kwargs
               = Some (Inr (?tw b (b + window_length) @ rest))"
    by blast
  with unset show ?thesis by (rule conjI)
qed

theorem origin_default_and_alignment_witness:
  "fast_forward (hd [0, 1, 2, 3, 10, 11, 12]) 1 (- 100) (- 100 + 1) = Some (- 1, - 1 + 1)
   \<and> hd [0, 1, 2, 3, 10, 11, 12] \<le> (- 1 + 1 :: real)
   \<and> - 100 + 1 + real 98 * 1 < hd [0, 1, 2, 3, 10, 11, 12]
   \<and> moving_window [0, 1, 2, 3, 10, 11, 12] [1, 2, 3, 4, 5, 6, 7] 1 1 py_sum None False ()
       = moving_window [0, 1, 2, 3, 10, 11, 12] [1, 2, 3, 4, 5, 6, 7] 1 1 py_sum (Some 0) False ()"
proof -
  have ne: "[0, 1, 2, 3, 10, 11, (12::real)] \<noteq> []" and step: "(0::real) < 1" by simp_all
  have ff: "fast_forward (hd [0, 1, 2, 3, 10, 11, 12]) 1 (- 100) (- 100 + 1) = Some (- 1, - 1 + 1)"
    by code_simp
  from origin_default_and_alignment[OF ne step, of "[1, 2, 3, 4, 5, 6, 7]" 1 py_sum False "()"
      "Some (- 100)"] ff
  show ?thesis by simp
qed

section \<open>A raising aggregation function\<close>



section \<open>Scenario A\<close>



section \<open>When \<^verbatim>\<open>Settings.load\<close> raises \<^verbatim>\<open>SettingsError\<close>\<close>




section \<open>The two arrays of \<^verbatim>\<open>get_data\<close>\<close>



end
